theory Spec2Isabelle
  imports Main "HOL-Library.Sublist"
begin

section \<open>Completion of a call\<close>

text \<open>
  A C++ call either returns, or leaves by an exception, or ends the process.  The
  process ends through \<^verbatim>\<open>std::terminate\<close>, or through a failed internal check.  A
  call to which the C++ standard gives no meaning (undefined behaviour) ends what can
  be said of the program as well.
\<close>

datatype fatal = StdTerminate | InvariantViolation | UndefinedBehaviour

datatype ('r, 'e) outcome = Returned 'r | Raised 'e | Fatal fatal

section \<open>\<^verbatim>\<open>tvm/support/with.h\<close>\<close>

subsection \<open>The context type and the calling thread\<close>

text \<open>
  \<^verbatim>\<open>ContextType\<close> is a template parameter: a constructor taking the forwarded
  arguments, \<^verbatim>\<open>EnterWithScope()\<close> and \<^verbatim>\<open>ExitWithScope()\<close>.  Each of them acts on
  whatever the context refers to (the \<open>world\<close>) and may throw; entering may also
  change the context object itself.  The hooks do not reach into the group that holds
  their context.
\<close>

record ('a, 'c, 'w, 'e) ContextType =
  construct :: "'a \<Rightarrow> 'w \<Rightarrow> ('e + 'c) \<times> 'w"
  EnterWithScope :: "'c \<Rightarrow> 'w \<Rightarrow> ('e + 'c) \<times> 'w"
  ExitWithScope :: "'c \<Rightarrow> 'w \<Rightarrow> 'e option \<times> 'w"

text \<open>
  What the calling thread carries besides the group: the world the hooks act on, the
  value of \<^verbatim>\<open>std::uncaught_exceptions()\<close>, and a history of the calls made so far
  (each hook call with the context it was made on, each \<^verbatim>\<open>entries_.pop_back()\<close>
  with the number of entries it left).  The history is only written, never read by
  the program.
\<close>

datatype 'c event = EnterHook 'c | ExitHook 'c | PopBack nat

record ('w, 'c) thread =
  world :: 'w
  uncaught_exceptions :: nat
  history :: "'c event list"

subsection \<open>With\<close>

text \<open>The member \<^verbatim>\<open>ctx_\<close> is the field \<open>ctx\<close>.\<close>

datatype 'c With = With (ctx: 'c)

text \<open>
  \<^verbatim>\<open>explicit With(Args&&... args) : ctx_(std::forward<Args>(args)...) { ctx_.EnterWithScope(); }\<close>
  An exception of the member initialiser or of the body leaves no \<^verbatim>\<open>With\<close> object
  behind, and the destructor of \<^verbatim>\<open>With\<close> does not run for it.
\<close>

definition With_ctor ::
  "('a, 'c, 'w, 'e) ContextType \<Rightarrow> 'a \<Rightarrow> ('w, 'c) thread \<Rightarrow> ('c With, 'e) outcome \<times> ('w, 'c) thread"
where
  "With_ctor T args th =
     (case construct T args (world th) of
        (Inl e, w1) \<Rightarrow> (Raised e, th\<lparr>world := w1\<rparr>)
      | (Inr c, w1) \<Rightarrow>
          (case EnterWithScope T c w1 of
             (Inl e, w2) \<Rightarrow> (Raised e, th\<lparr>world := w2, history := history th @ [EnterHook c]\<rparr>)
           | (Inr c', w2) \<Rightarrow>
               (Returned (With c'), th\<lparr>world := w2, history := history th @ [EnterHook c]\<rparr>)))"

text \<open>\<^verbatim>\<open>~With() noexcept(false) { ctx_.ExitWithScope(); }\<close>\<close>

definition With_dtor ::
  "('a, 'c, 'w, 'e) ContextType \<Rightarrow> 'c With \<Rightarrow> ('w, 'c) thread \<Rightarrow> (unit, 'e) outcome \<times> ('w, 'c) thread"
where
  "With_dtor T x th =
     (case ExitWithScope T (ctx x) (world th) of
        (None, w1) \<Rightarrow> (Returned (), th\<lparr>world := w1, history := history th @ [ExitHook (ctx x)]\<rparr>)
      | (Some e, w1) \<Rightarrow> (Raised e, th\<lparr>world := w1, history := history th @ [ExitHook (ctx x)]\<rparr>))"

subsection \<open>WithGroup\<close>

text \<open>
  \<^verbatim>\<open>std::vector<std::unique_ptr<With<ContextType>>> entries_\<close>: the only writer of the
  vector is \<^verbatim>\<open>Emplace\<close>, which appends the result of \<^verbatim>\<open>std::make_unique\<close>, so every
  element owns a \<^verbatim>\<open>With\<close> object; the field \<open>entries\<close> holds those objects, oldest
  first.
\<close>

record 'c WithGroup =
  entries :: "'c With list"

definition WithGroup_ctor :: "'c WithGroup" where
  "WithGroup_ctor = \<lparr>entries = []\<rparr>"

definition WithGroup_size :: "'c WithGroup \<Rightarrow> nat" where
  "WithGroup_size g = length (entries g)"

text \<open>
  \<^verbatim>\<open>entries_.push_back(std::make_unique<With<ContextType>>(std::forward<Args>(args)...));\<close>
  The argument is evaluated first: when the constructor of \<^verbatim>\<open>With\<close> throws,
  \<^verbatim>\<open>push_back\<close> is not reached.
\<close>

definition Emplace ::
  "('a, 'c, 'w, 'e) ContextType \<Rightarrow> 'a \<Rightarrow> 'c WithGroup \<Rightarrow> ('w, 'c) thread \<Rightarrow>
     (unit, 'e) outcome \<times> 'c WithGroup \<times> ('w, 'c) thread"
where
  "Emplace T args g th =
     (case With_ctor T args th of
        (Returned x, th') \<Rightarrow> (Returned (), g\<lparr>entries := entries g @ [x]\<rparr>, th')
      | (Raised e, th') \<Rightarrow> (Raised e, g, th')
      | (Fatal k, th') \<Rightarrow> (Fatal k, g, th'))"

text \<open>
  The loop of \<^verbatim>\<open>~WithGroup()\<close>:
  \<^verbatim>\<open>
    while (!entries_.empty()) {
      auto entry = std::move(entries_.back());
      entries_.pop_back();
      try {
        entry.reset();
      } catch (...) {
        if (!unwinding && !first_exc) {
          first_exc = std::current_exception();
        }
      }
    }
  \<close>
  \<^verbatim>\<open>entry.reset()\<close> is a call into the standard library; the loop is written over
  what that call does with the entry (\<open>reset\<close>), so that the loop and the library call
  can be read apart.  The loop gives back \<open>first_exc\<close>, the entries left and the
  thread; when the process is terminated inside the loop, it gives back the state at
  that point.
\<close>

function while_entries ::
  "('c With \<Rightarrow> ('w, 'c) thread \<Rightarrow> (unit, 'e) outcome \<times> ('w, 'c) thread) \<Rightarrow>
     bool \<Rightarrow> 'e option \<Rightarrow> 'c With list \<Rightarrow> ('w, 'c) thread \<Rightarrow>
     ('e option, 'e) outcome \<times> 'c With list \<times> ('w, 'c) thread"
where
  "while_entries reset unwinding first_exc es th =
     (if es = [] then (Returned first_exc, es, th)
      else
        let entry = last es;
            es' = butlast es;
            th1 = th\<lparr>history := history th @ [PopBack (length es')]\<rparr>
        in case reset entry th1 of
             (Returned u, th2) \<Rightarrow> while_entries reset unwinding first_exc es' th2
           | (Raised e, th2) \<Rightarrow>
               while_entries reset unwinding
                 (if \<not> unwinding \<and> first_exc = None then Some e else first_exc) es' th2
           | (Fatal k, th2) \<Rightarrow> (Fatal k, es', th2))"
  by pat_completeness auto
termination
  by (relation "measure (\<lambda>(reset, unwinding, first_exc, es, th). length es)") auto

declare while_entries.simps [simp del]

text \<open>
  \<^verbatim>\<open>
    ~WithGroup() noexcept(false) {
      bool unwinding = std::uncaught_exceptions() > 0;
      std::exception_ptr first_exc;
      while (...) { ... }
      if (first_exc) std::rethrow_exception(first_exc);
    }
  \<close>
\<close>

definition WithGroup_dtor_over ::
  "('c With \<Rightarrow> ('w, 'c) thread \<Rightarrow> (unit, 'e) outcome \<times> ('w, 'c) thread) \<Rightarrow>
     'c WithGroup \<Rightarrow> ('w, 'c) thread \<Rightarrow> (unit, 'e) outcome \<times> 'c WithGroup \<times> ('w, 'c) thread"
where
  "WithGroup_dtor_over reset g th =
     (let unwinding = (uncaught_exceptions th > 0);
          first_exc = None
      in case while_entries reset unwinding first_exc (entries g) th of
           (Returned None, es, th') \<Rightarrow> (Returned (), g\<lparr>entries := es\<rparr>, th')
         | (Returned (Some e), es, th') \<Rightarrow> (Raised e, g\<lparr>entries := es\<rparr>, th')
         | (Raised e, es, th') \<Rightarrow> (Raised e, g\<lparr>entries := es\<rparr>, th')
         | (Fatal k, es, th') \<Rightarrow> (Fatal k, g\<lparr>entries := es\<rparr>, th'))"

text \<open>
  \<^verbatim>\<open>entry.reset()\<close> on a \<^verbatim>\<open>std::unique_ptr<With<ContextType>>\<close> deletes the owned
  object, which runs \<^verbatim>\<open>~With()\<close>.  The standard declares
  \<^verbatim>\<open>void reset(pointer p = pointer()) noexcept\<close> and requires of the deleter that
  it does not throw (C++ standard, [unique.ptr.single.modifiers]); it gives no
  meaning to a call that breaks the requirement.  What the declaration fixes is that
  an exception leaving \<^verbatim>\<open>~With()\<close> meets the non-throwing exception specification
  of \<^verbatim>\<open>reset\<close> on its way out, where \<^verbatim>\<open>std::terminate\<close> is called ([except.spec]):
  the exception does not reach the caller of \<^verbatim>\<open>reset\<close>, and so not the handler of
  the loop.
\<close>

definition unique_ptr_reset ::
  "('a, 'c, 'w, 'e) ContextType \<Rightarrow> 'c With \<Rightarrow> ('w, 'c) thread \<Rightarrow> (unit, 'e) outcome \<times> ('w, 'c) thread"
where
  "unique_ptr_reset T entry th =
     (case With_dtor T entry th of
        (Returned u, th') \<Rightarrow> (Returned u, th')
      | (Raised e, th') \<Rightarrow> (Fatal StdTerminate, th')
      | (Fatal k, th') \<Rightarrow> (Fatal k, th'))"

text \<open>The destructor as the program has it: the loop with the library's \<^verbatim>\<open>reset\<close>.\<close>

definition WithGroup_dtor ::
  "('a, 'c, 'w, 'e) ContextType \<Rightarrow> 'c WithGroup \<Rightarrow> ('w, 'c) thread \<Rightarrow>
     (unit, 'e) outcome \<times> 'c WithGroup \<times> ('w, 'c) thread"
where
  "WithGroup_dtor T g th = WithGroup_dtor_over (unique_ptr_reset T) g th"

text \<open>
  \<^verbatim>\<open>WithGroup(WithGroup&&) = default;\<close> moves the vector: the new group owns the
  entries, in their order, and the moved-from vector is empty.
\<close>

definition WithGroup_move_ctor :: "'c WithGroup \<Rightarrow> 'c WithGroup \<times> 'c WithGroup" where
  "WithGroup_move_ctor other = (\<lparr>entries = entries other\<rparr>, other\<lparr>entries := []\<rparr>)"

text \<open>The contexts whose exit hook a history records, in the order of the calls.\<close>

fun exits :: "'c event list \<Rightarrow> 'c list" where
  "exits [] = []"
| "exits (ExitHook c # evs) = c # exits evs"
| "exits (EnterHook c # evs) = exits evs"
| "exits (PopBack n # evs) = exits evs"

text \<open>
  The calls that tear down the entries \<open>ds\<close> of a group, newest first, when \<open>n\<close>
  older entries sit below them: each entry is popped, then its exit hook is called.
\<close>

fun teardown :: "nat \<Rightarrow> 'c With list \<Rightarrow> 'c event list" where
  "teardown n [] = []"
| "teardown n (x # xs) = teardown (Suc n) xs @ [PopBack n, ExitHook (ctx x)]"

text \<open>
  The first error that the exit hooks raise when the entries \<open>es\<close> are left one after
  the other, newest first, starting in world \<open>w\<close> (none when no hook raises).
\<close>

fun first_raised :: "('a, 'c, 'w, 'e) ContextType \<Rightarrow> 'c With list \<Rightarrow> 'w \<Rightarrow> 'e option" where
  "first_raised T [] w = None"
| "first_raised T (x # xs) w =
     (case ExitWithScope T (ctx x) w of
        (Some e, w') \<Rightarrow> Some e
      | (None, w') \<Rightarrow> first_raised T xs w')"

section \<open>\<^verbatim>\<open>tvm/ir/scope_stack.h\<close>\<close>

subsection \<open>The deque\<close>

text \<open>
  \<^verbatim>\<open>std::deque<T> stack_\<close>.  A reference to an element is the address of the cell the
  element lives in, so the deque is the list of its cells, outermost first, each an
  address with the value stored there.  Where a new cell is placed is the allocator's
  choice: \<open>alloc\<close> gives the address of the new cell from the addresses in use.
  \<^verbatim>\<open>emplace_back\<close> and \<^verbatim>\<open>pop_back\<close> of \<^verbatim>\<open>std::deque\<close> leave every other element
  where it is (C++ standard, [deque.modifiers]).
\<close>

type_synonym addr = nat

type_synonym 't deque = "(addr \<times> 't) list"

definition deque_size :: "'t deque \<Rightarrow> nat" where
  "deque_size d = length d"

definition deque_empty :: "'t deque \<Rightarrow> bool" where
  "deque_empty d = (d = [])"

definition deque_emplace_back :: "(addr list \<Rightarrow> addr) \<Rightarrow> 't \<Rightarrow> 't deque \<Rightarrow> 't deque" where
  "deque_emplace_back alloc dflt d = d @ [(alloc (map fst d), dflt)]"

text \<open>
  \<^verbatim>\<open>pop_back\<close> destroys the last element: it runs \<^verbatim>\<open>~T()\<close>.  What the destructor of
  the element type does with an element is \<open>dtor\<close>: it returns, or throws, or ends the
  process (the destructor of a \<^verbatim>\<open>WithGroup\<close> calls exit hooks and can end in
  \<^verbatim>\<open>std::terminate\<close>); what it does to things other than the stack is left out.
  The standard gives no meaning to \<^verbatim>\<open>pop_back\<close> on an empty deque, nor to a standard
  container whose element destructor exits by an exception ([res.on.functions]).
\<close>

definition deque_pop_back ::
  "('t \<Rightarrow> (unit, 'e) outcome) \<Rightarrow> 't deque \<Rightarrow> (unit, 'e) outcome \<times> 't deque"
where
  "deque_pop_back dtor d =
     (if d = [] then (Fatal UndefinedBehaviour, d)
      else case dtor (snd (last d)) of
             Returned u \<Rightarrow> (Returned (), butlast d)
           | Raised e \<Rightarrow> (Fatal UndefinedBehaviour, butlast d)
           | Fatal k \<Rightarrow> (Fatal k, butlast d))"

definition deque_back :: "'t deque \<Rightarrow> addr \<times> 't" where
  "deque_back d = last d"

text \<open>Destroying all the elements of a deque, as its destructor and its assignment do.\<close>

fun destroy_elements :: "('t \<Rightarrow> (unit, 'e) outcome) \<Rightarrow> 't deque \<Rightarrow> (unit, 'e) outcome" where
  "destroy_elements dtor [] = Returned ()"
| "destroy_elements dtor (c # cs) =
     (case dtor (snd c) of
        Returned u \<Rightarrow> destroy_elements dtor cs
      | Raised e \<Rightarrow> Fatal UndefinedBehaviour
      | Fatal k \<Rightarrow> Fatal k)"

subsection \<open>ScopeStack\<close>

text \<open>The member \<^verbatim>\<open>stack_\<close> is the field \<open>stack\<close>; \<open>dflt\<close> is the value of \<^verbatim>\<open>T()\<close>.\<close>

record 't ScopeStack =
  stack :: "'t deque"

text \<open>\<^verbatim>\<open>ScopeStack() { stack_.emplace_back(); }\<close>\<close>

definition ScopeStack_ctor :: "(addr list \<Rightarrow> addr) \<Rightarrow> 't \<Rightarrow> 't ScopeStack" where
  "ScopeStack_ctor alloc dflt = \<lparr>stack = deque_emplace_back alloc dflt []\<rparr>"

text \<open>\<^verbatim>\<open>size_t size() const { return stack_.size(); }\<close>\<close>

definition ScopeStack_size :: "'t ScopeStack \<Rightarrow> nat" where
  "ScopeStack_size s = deque_size (stack s)"

text \<open>\<^verbatim>\<open>bool empty() const { return stack_.empty(); }\<close>\<close>

definition ScopeStack_empty :: "'t ScopeStack \<Rightarrow> bool" where
  "ScopeStack_empty s = deque_empty (stack s)"

text \<open>
  Modelled from the spec: the macro \<^verbatim>\<open>TVM_FFI_ICHECK\<close> comes from
  \<^verbatim>\<open>tvm/ffi/error.h\<close>, which is not among the sources.  The specification says of the
  check in \<^verbatim>\<open>Current()\<close> that it fails with an invariant-violation error that is
  fatal and non-recoverable, and that it must abort rather than return a sentinel.
\<close>

definition TVM_FFI_ICHECK :: "bool \<Rightarrow> (unit, 'e) outcome" where
  "TVM_FFI_ICHECK cond = (if cond then Returned () else Fatal InvariantViolation)"

text \<open>
  \<^verbatim>\<open>T& Current() { TVM_FFI_ICHECK(!stack_.empty()); return stack_.back(); }\<close>
  The reference returned is the cell: its address, and the value a read through the
  reference finds.
\<close>

definition Current :: "'t ScopeStack \<Rightarrow> (addr \<times> 't, 'e) outcome" where
  "Current s =
     (case TVM_FFI_ICHECK (\<not> deque_empty (stack s)) of
        Returned u \<Rightarrow> Returned (deque_back (stack s))
      | Raised e \<Rightarrow> Raised e
      | Fatal k \<Rightarrow> Fatal k)"

text \<open>\<^verbatim>\<open>const T& Current() const { TVM_FFI_ICHECK(!stack_.empty()); return stack_.back(); }\<close>\<close>

definition Current_const :: "'t ScopeStack \<Rightarrow> (addr \<times> 't, 'e) outcome" where
  "Current_const s =
     (case TVM_FFI_ICHECK (\<not> deque_empty (stack s)) of
        Returned u \<Rightarrow> Returned (deque_back (stack s))
      | Raised e \<Rightarrow> Raised e
      | Fatal k \<Rightarrow> Fatal k)"

text \<open>
  \<^verbatim>\<open>
    auto WithNewScope(F&& body) -> decltype(body()) {
      stack_.emplace_back();
      struct Guard {
        std::deque<T>* stack;
        ~Guard() noexcept(false) { stack->pop_back(); }
      } guard{&stack_};
      ... body() ...
    }
  \<close>
  The closure \<open>body\<close> sees the stack and may change it; it returns a value (none, in
  the \<^verbatim>\<open>void\<close> branch) or throws.  The destructor of the guard runs when the
  function is left, by return or by exception, and calls \<^verbatim>\<open>pop_back\<close> on whatever
  the member \<^verbatim>\<open>stack_\<close> then holds; when the process ends inside \<open>body\<close>, nothing runs
  after it.  An exception that left the guard's destructor would reach the caller
  after a body that returned, and would end the process in \<^verbatim>\<open>std::terminate\<close> after
  a body that threw ([except.terminate]).
\<close>

definition WithNewScope ::
  "(addr list \<Rightarrow> addr) \<Rightarrow> 't \<Rightarrow> ('t \<Rightarrow> (unit, 'e) outcome) \<Rightarrow>
     ('t ScopeStack \<Rightarrow> ('r, 'e) outcome \<times> 't ScopeStack) \<Rightarrow>
     't ScopeStack \<Rightarrow> ('r, 'e) outcome \<times> 't ScopeStack"
where
  "WithNewScope alloc dflt dtor body s =
     (let s1 = s\<lparr>stack := deque_emplace_back alloc dflt (stack s)\<rparr>
      in case body s1 of
           (Returned r, s2) \<Rightarrow>
             (case deque_pop_back dtor (stack s2) of
                (Returned u, d) \<Rightarrow> (Returned r, s2\<lparr>stack := d\<rparr>)
              | (Raised e, d) \<Rightarrow> (Raised e, s2\<lparr>stack := d\<rparr>)
              | (Fatal k, d) \<Rightarrow> (Fatal k, s2\<lparr>stack := d\<rparr>))
         | (Raised e, s2) \<Rightarrow>
             (case deque_pop_back dtor (stack s2) of
                (Returned u, d) \<Rightarrow> (Raised e, s2\<lparr>stack := d\<rparr>)
              | (Raised e', d) \<Rightarrow> (Fatal StdTerminate, s2\<lparr>stack := d\<rparr>)
              | (Fatal k, d) \<Rightarrow> (Fatal k, s2\<lparr>stack := d\<rparr>))
         | (Fatal k, s2) \<Rightarrow> (Fatal k, s2))"

subsection \<open>The operations the compiler generates\<close>

text \<open>
  The class declares no copy or move operation and deletes none, so the compiler
  generates them, and they are public.  The move constructor moves the deque: the
  new stack owns the cells, where they are, and the stack moved from is left with
  none (the standard promises a valid state and names none; the implementations
  leave the deque empty).
\<close>

definition ScopeStack_move_ctor :: "'t ScopeStack \<Rightarrow> 't ScopeStack \<times> 't ScopeStack" where
  "ScopeStack_move_ctor other = (\<lparr>stack = stack other\<rparr>, other\<lparr>stack := []\<rparr>)"

text \<open>
  The move assignment \<^verbatim>\<open>*this = std::move(other)\<close> destroys the elements that
  \<^verbatim>\<open>*this\<close> held and moves the deque of \<open>other\<close> in.  It gives back the outcome, the
  stack assigned to and the stack moved from.
\<close>

definition ScopeStack_move_assign ::
  "('t \<Rightarrow> (unit, 'e) outcome) \<Rightarrow> 't ScopeStack \<Rightarrow> 't ScopeStack \<Rightarrow>
     (unit, 'e) outcome \<times> 't ScopeStack \<times> 't ScopeStack"
where
  "ScopeStack_move_assign dtor self other =
     (case destroy_elements dtor (stack self) of
        Returned u \<Rightarrow> (Returned (), self\<lparr>stack := stack other\<rparr>, other\<lparr>stack := []\<rparr>)
      | Raised e \<Rightarrow> (Raised e, self, other)
      | Fatal k \<Rightarrow> (Fatal k, self, other))"

subsection \<open>Programs over the declared members\<close>

text \<open>
  What a caller can do with a \<^verbatim>\<open>ScopeStack\<close> through the members the class
  declares: ask \<^verbatim>\<open>size()\<close> and \<^verbatim>\<open>empty()\<close>, take \<^verbatim>\<open>Current()\<close> to read the
  innermost element or to assign to it, and call \<^verbatim>\<open>WithNewScope\<close> with a body that
  is again such a program.  Each step hands its result to the rest of the program; a
  program ends by returning a value or by throwing.  The rest of a program after
  \<^verbatim>\<open>WithNewScope\<close> receives the value of the body, or the exception it threw (a
  caller that does not catch it throws it again).  The operations the compiler
  generates are not part of these programs.
\<close>

datatype ('t, 'r, 'e) client =
    Return 'r
  | Throw 'e
  | CallSize "nat \<Rightarrow> ('t, 'r, 'e) client"
  | CallEmpty "bool \<Rightarrow> ('t, 'r, 'e) client"
  | CallCurrent "addr \<times> 't \<Rightarrow> ('t, 'r, 'e) client"
  | AssignCurrent "'t \<Rightarrow> 't" "('t, 'r, 'e) client"
  | CallWithNewScope "('t, 'r, 'e) client" "'e + 'r \<Rightarrow> ('t, 'r, 'e) client"

primrec exec ::
  "(addr list \<Rightarrow> addr) \<Rightarrow> 't \<Rightarrow> ('t \<Rightarrow> (unit, 'e) outcome) \<Rightarrow> ('t, 'r, 'e) client \<Rightarrow>
     't ScopeStack \<Rightarrow> ('r, 'e) outcome \<times> 't ScopeStack"
where
  "exec alloc dflt dtor (Return r) s = (Returned r, s)"
| "exec alloc dflt dtor (Throw e) s = (Raised e, s)"
| "exec alloc dflt dtor (CallSize k) s = exec alloc dflt dtor (k (ScopeStack_size s)) s"
| "exec alloc dflt dtor (CallEmpty k) s = exec alloc dflt dtor (k (ScopeStack_empty s)) s"
| "exec alloc dflt dtor (CallCurrent k) s =
     (case Current_const s of
        Returned c \<Rightarrow> exec alloc dflt dtor (k c) s
      | Raised e \<Rightarrow> (Raised e, s)
      | Fatal f \<Rightarrow> (Fatal f, s))"
| "exec alloc dflt dtor (AssignCurrent f p) s =
     (case Current s of
        Returned c \<Rightarrow>
          exec alloc dflt dtor p (s\<lparr>stack := butlast (stack s) @ [(fst c, f (snd c))]\<rparr>)
      | Raised e \<Rightarrow> (Raised e, s)
      | Fatal k \<Rightarrow> (Fatal k, s))"
| "exec alloc dflt dtor (CallWithNewScope b k) s =
     (case WithNewScope alloc dflt dtor (exec alloc dflt dtor b) s of
        (Returned r, s') \<Rightarrow> exec alloc dflt dtor (k (Inr r)) s'
      | (Raised e, s') \<Rightarrow> exec alloc dflt dtor (k (Inl e)) s'
      | (Fatal f, s') \<Rightarrow> (Fatal f, s'))"

text \<open>
  The stacks a program passes through: the stack each of its steps starts from, the
  steps of the bodies included.
\<close>

primrec visited ::
  "(addr list \<Rightarrow> addr) \<Rightarrow> 't \<Rightarrow> ('t \<Rightarrow> (unit, 'e) outcome) \<Rightarrow> ('t, 'r, 'e) client \<Rightarrow>
     't ScopeStack \<Rightarrow> 't ScopeStack list"
where
  "visited alloc dflt dtor (Return r) s = [s]"
| "visited alloc dflt dtor (Throw e) s = [s]"
| "visited alloc dflt dtor (CallSize k) s = s # visited alloc dflt dtor (k (ScopeStack_size s)) s"
| "visited alloc dflt dtor (CallEmpty k) s = s # visited alloc dflt dtor (k (ScopeStack_empty s)) s"
| "visited alloc dflt dtor (CallCurrent k) s =
     s # (case Current_const s :: (addr \<times> 't, 'e) outcome of
            Returned c \<Rightarrow> visited alloc dflt dtor (k c) s
          | Raised e \<Rightarrow> []
          | Fatal f \<Rightarrow> [])"
| "visited alloc dflt dtor (AssignCurrent f p) s =
     s # (case Current s :: (addr \<times> 't, 'e) outcome of
            Returned c \<Rightarrow>
              visited alloc dflt dtor p (s\<lparr>stack := butlast (stack s) @ [(fst c, f (snd c))]\<rparr>)
          | Raised e \<Rightarrow> []
          | Fatal k \<Rightarrow> [])"
| "visited alloc dflt dtor (CallWithNewScope b k) s =
     s # visited alloc dflt dtor b (s\<lparr>stack := deque_emplace_back alloc dflt (stack s)\<rparr>) @
       (case WithNewScope alloc dflt dtor (exec alloc dflt dtor b) s of
          (Returned r, s') \<Rightarrow> visited alloc dflt dtor (k (Inr r)) s'
        | (Raised e, s') \<Rightarrow> visited alloc dflt dtor (k (Inl e)) s'
        | (Fatal f, s') \<Rightarrow> [])"

section \<open>Instances to run\<close>

text \<open>
  Contexts are numbers and the world is the list of contexts entered and not yet left.
  Constructing from 0 throws, entering a context above 99 throws, leaving an odd
  context throws (after it has left).
\<close>

definition demo :: "(nat, nat, nat list, string) ContextType" where
  "demo = \<lparr>
     construct = (\<lambda>a w. if a = 0 then (Inl ''bad argument'', w) else (Inr a, w)),
     EnterWithScope = (\<lambda>c w. if 99 < c then (Inl ''enter failed'', w) else (Inr c, c # w)),
     ExitWithScope = (\<lambda>c w. (if odd c then Some ''exit failed'' else None, remove1 c w))\<rparr>"

definition idle :: "(nat list, nat) thread" where
  "idle = \<lparr>world = [], uncaught_exceptions = 0, history = []\<rparr>"

text \<open>An allocator that never hands out an address in use.\<close>

definition bump :: "addr list \<Rightarrow> addr" where
  "bump as = Suc (sum_list as)"

text \<open>
  A program with two scopes inside each other: it assigns to the base element, opens
  a scope and assigns there, opens a second scope whose body throws at depth 3, lets
  the exception pass the inner call, and catches it after the outer one.
\<close>

definition nested :: "(nat, nat, string) client" where
  "nested =
     AssignCurrent (\<lambda>x. x + 1)
       (CallWithNewScope
          (AssignCurrent (\<lambda>x. x + 5)
             (CallWithNewScope (CallSize (\<lambda>n. if n = 3 then Throw ''deep'' else Return n))
                (\<lambda>r. case r of Inl e \<Rightarrow> Throw e | Inr n \<Rightarrow> Return n)))
          (\<lambda>r. case r of Inl e \<Rightarrow> CallCurrent (\<lambda>c. Return (snd c)) | Inr n \<Rightarrow> Return n))"

text \<open>The destructor of an element type that has nothing to do.\<close>

definition trivial :: "'t \<Rightarrow> (unit, string) outcome" where
  "trivial v = Returned ()"

text \<open>
  The body \<^verbatim>\<open>[&]{ s = ScopeStack<T>(); }\<close>: it assigns a newly constructed stack,
  whose one element lives at address 7, to the stack it runs on.
\<close>

definition replace_stack :: "nat ScopeStack \<Rightarrow> (unit, string) outcome \<times> nat ScopeStack" where
  "replace_stack s =
     (case ScopeStack_move_assign trivial s (ScopeStack_ctor (\<lambda>as. 7) 0) of
        (r, self, other) \<Rightarrow> (r, self))"

text \<open>
  \<^verbatim>\<open>ScopeStack<WithGroup<C>>\<close>, the element type the header documents: destroying
  an element runs the destructor of the group, here with the contexts of \<open>demo\<close> in a
  thread in which no exception is in flight.  The body stands for
  \<^verbatim>\<open>Current().Emplace(3)\<close>.
\<close>

definition group_dtor :: "nat WithGroup \<Rightarrow> (unit, string) outcome" where
  "group_dtor g = fst (WithGroup_dtor demo g (idle\<lparr>world := rev (map ctx (entries g))\<rparr>))"

definition emplace3 :: "(nat WithGroup, nat, string) client" where
  "emplace3 = AssignCurrent (\<lambda>g. g\<lparr>entries := entries g @ [With 3]\<rparr>) (Return 0)"

section \<open>Properties of With and WithGroup\<close>

lemma exits_append: "exits (xs @ ys) = exits xs @ exits ys"
  by (induction xs rule: exits.induct) simp_all

lemma teardown_snoc:
  "teardown n (ds @ [x]) = [PopBack (n + length ds), ExitHook (ctx x)] @ teardown n ds"
  by (induction ds arbitrary: n) simp_all

lemma exits_teardown: "exits (teardown n ds) = rev (map ctx ds)"
  by (induction ds arbitrary: n) (simp_all add: exits_append)

subsection \<open>The loop, whatever \<^verbatim>\<open>entry.reset()\<close> does\<close>

lemma while_entries_Nil: "while_entries reset u f [] th = (Returned f, [], th)"
  by (simp add: while_entries.simps)

lemma while_entries_snoc:
  "while_entries reset u f (es @ [x]) th =
     (case reset x (th\<lparr>history := history th @ [PopBack (length es)]\<rparr>) of
        (Returned v, th2) \<Rightarrow> while_entries reset u f es th2
      | (Raised e, th2) \<Rightarrow> while_entries reset u (if \<not> u \<and> f = None then Some e else f) es th2
      | (Fatal k, th2) \<Rightarrow> (Fatal k, es, th2))"
  by (subst while_entries.simps) (simp add: Let_def)

text \<open>The loop is left with no entry, unless the process ends inside it.\<close>

lemma while_entries_completes:
  "while_entries reset u f es th = (r, es', th') \<Longrightarrow>
     (\<exists>f'. r = Returned f' \<and> es' = []) \<or> (\<exists>k. r = Fatal k)"
proof (induction es arbitrary: f th rule: rev_induct)
  case Nil
  then show ?case by (auto simp: while_entries_Nil)
next
  case (snoc x xs)
  obtain r1 th1 where
    R: "reset x (th\<lparr>history := history th @ [PopBack (length xs)]\<rparr>) = (r1, th1)"
    by fastforce
  show ?case
  proof (cases r1)
    case (Returned v)
    with R snoc.prems have "while_entries reset u f xs th1 = (r, es', th')"
      by (simp add: while_entries_snoc)
    then show ?thesis by (rule snoc.IH)
  next
    case (Raised e)
    with R snoc.prems
    have "while_entries reset u (if \<not> u \<and> f = None then Some e else f) xs th1 = (r, es', th')"
      by (simp add: while_entries_snoc)
    then show ?thesis by (rule snoc.IH)
  next
    case (Fatal k)
    with R snoc.prems show ?thesis by (auto simp: while_entries_snoc)
  qed
qed

lemma WithGroup_dtor_over_completes:
  assumes "WithGroup_dtor_over reset g th = (r, g', th')"
  shows "entries g' = [] \<or> (\<exists>k. r = Fatal k)"
proof -
  obtain r0 es0 th0 where
    W: "while_entries reset (0 < uncaught_exceptions th) None (entries g) th = (r0, es0, th0)"
    using prod_cases3 by blast
  from while_entries_completes [OF W] assms W show ?thesis
    by (auto simp: WithGroup_dtor_over_def split: option.splits)
qed

text \<open>
  As long as \<^verbatim>\<open>entry.reset()\<close> calls the exit hook of the entry and nothing else, the
  destructor tears down the newest entries first: the entries it has destroyed are
  the last ones of the group, each was popped before its exit hook was called, and the
  hooks were called in the reverse of the order of the entries.
\<close>

lemma while_entries_order:
  assumes calls: "\<forall>x th. history (snd (reset x th)) = history th @ [ExitHook (ctx x)]"
  shows "while_entries reset u f es th = (r, es', th') \<Longrightarrow>
     \<exists>ds. es = es' @ ds \<and> history th' = history th @ teardown (length es') ds"
proof (induction es arbitrary: f th rule: rev_induct)
  case Nil
  then show ?case by (simp add: while_entries_Nil)
next
  case (snoc x xs)
  let ?th1 = "th\<lparr>history := history th @ [PopBack (length xs)]\<rparr>"
  obtain r1 th2 where R: "reset x ?th1 = (r1, th2)"
    by fastforce
  from calls have "history (snd (reset x ?th1)) = history ?th1 @ [ExitHook (ctx x)]"
    by blast
  with R have H: "history th2 = history th @ [PopBack (length xs), ExitHook (ctx x)]"
    by simp
  have step: "\<exists>ds. xs @ [x] = es' @ ds \<and> history th' = history th @ teardown (length es') ds"
    if "while_entries reset u f0 xs th2 = (r, es', th')" for f0
  proof -
    from snoc.IH [OF that] obtain ds where
      ds: "xs = es' @ ds" "history th' = history th2 @ teardown (length es') ds" by blast
    with H have "xs @ [x] = es' @ (ds @ [x]) \<and>
        history th' = history th @ teardown (length es') (ds @ [x])"
      by (simp add: teardown_snoc)
    then show ?thesis by blast
  qed
  show ?case
  proof (cases r1)
    case (Returned v)
    with R snoc.prems have "while_entries reset u f xs th2 = (r, es', th')"
      by (simp add: while_entries_snoc)
    then show ?thesis by (rule step)
  next
    case (Raised e)
    with R snoc.prems
    have "while_entries reset u (if \<not> u \<and> f = None then Some e else f) xs th2 = (r, es', th')"
      by (simp add: while_entries_snoc)
    then show ?thesis by (rule step)
  next
    case (Fatal k)
    with R snoc.prems have "es' = xs" "th' = th2" by (simp_all add: while_entries_snoc)
    with H have "xs @ [x] = es' @ [x] \<and> history th' = history th @ teardown (length es') [x]"
      by simp
    then show ?thesis by blast
  qed
qed

lemma WithGroup_dtor_over_order:
  assumes calls: "\<forall>x th. history (snd (reset x th)) = history th @ [ExitHook (ctx x)]"
    and "WithGroup_dtor_over reset g th = (r, g', th')"
  shows "\<exists>ds. entries g = entries g' @ ds \<and>
              history th' = history th @ teardown (length (entries g')) ds \<and>
              exits (history th') = exits (history th) @ rev (map ctx ds)"
proof -
  obtain r0 es0 th0 where
    W: "while_entries reset (0 < uncaught_exceptions th) None (entries g) th = (r0, es0, th0)"
    using prod_cases3 by blast
  with assms(2) have "entries g' = es0" "th' = th0"
    by (auto simp: WithGroup_dtor_over_def split: outcome.splits option.splits)
  with while_entries_order [OF calls W] show ?thesis
    by (auto simp: exits_append exits_teardown)
qed

subsection \<open>The destructor of the program\<close>

text \<open>
  No exception comes out of \<^verbatim>\<open>entry.reset()\<close>, so the handler of the loop is never
  entered and \<open>first_exc\<close> stays empty: the destructor returns, or the process ends.
\<close>

lemma unique_ptr_reset_cases:
  "unique_ptr_reset T x th = (r, th') \<Longrightarrow> r = Returned () \<or> r = Fatal StdTerminate"
  by (auto simp: unique_ptr_reset_def With_dtor_def split: prod.splits option.splits)

lemma unique_ptr_reset_history:
  "history (snd (unique_ptr_reset T x th)) = history th @ [ExitHook (ctx x)]"
  by (auto simp: unique_ptr_reset_def With_dtor_def split: prod.splits option.splits)

lemma while_entries_cases:
  "while_entries (unique_ptr_reset T) u f es th = (r, es', th') \<Longrightarrow>
     (r = Returned f \<and> es' = []) \<or> r = Fatal StdTerminate"
proof (induction es arbitrary: th rule: rev_induct)
  case Nil
  then show ?case by (simp add: while_entries_Nil)
next
  case (snoc x xs)
  obtain r1 th1 where
    R: "unique_ptr_reset T x (th\<lparr>history := history th @ [PopBack (length xs)]\<rparr>) = (r1, th1)"
    by fastforce
  from unique_ptr_reset_cases [OF R] show ?case
  proof
    assume "r1 = Returned ()"
    with R snoc.prems have "while_entries (unique_ptr_reset T) u f xs th1 = (r, es', th')"
      by (simp add: while_entries_snoc)
    then show ?thesis by (rule snoc.IH)
  next
    assume "r1 = Fatal StdTerminate"
    with R snoc.prems show ?thesis by (simp add: while_entries_snoc)
  qed
qed

lemma WithGroup_dtor_cases:
  "WithGroup_dtor T g th = (r, g', th') \<Longrightarrow>
     (r = Returned () \<and> entries g' = []) \<or> r = Fatal StdTerminate"
proof -
  assume A: "WithGroup_dtor T g th = (r, g', th')"
  obtain r0 es0 th0 where
    W: "while_entries (unique_ptr_reset T) (0 < uncaught_exceptions th) None (entries g) th =
          (r0, es0, th0)"
    using prod_cases3 by blast
  from while_entries_cases [OF W] A W show ?thesis
    by (auto simp: WithGroup_dtor_def WithGroup_dtor_over_def)
qed

lemma WithGroup_dtor_order:
  assumes "WithGroup_dtor T g th = (r, g', th')"
  shows "\<exists>ds. entries g = entries g' @ ds \<and>
              history th' = history th @ teardown (length (entries g')) ds \<and>
              exits (history th') = exits (history th) @ rev (map ctx ds)"
proof -
  have "\<forall>x th. history (snd (unique_ptr_reset T x th)) = history th @ [ExitHook (ctx x)]"
    by (simp add: unique_ptr_reset_history)
  from WithGroup_dtor_over_order [OF this] assms show ?thesis
    by (simp add: WithGroup_dtor_def)
qed

text \<open>A destructor that returns has left all the entries, newest first.\<close>

lemma WithGroup_dtor_returns:
  assumes "WithGroup_dtor T g th = (Returned (), g', th')"
  shows "entries g' = [] \<and> history th' = history th @ teardown 0 (entries g) \<and>
         exits (history th') = exits (history th) @ rev (map ctx (entries g))"
  using WithGroup_dtor_order [OF assms] WithGroup_dtor_cases [OF assms] by auto

text \<open>
  Moving a group hands its entries to the new group and leaves the old one empty;
  destroying the old one then calls nothing.
\<close>

lemma WithGroup_move_ctor_transfers:
  "WithGroup_move_ctor g = (h, g') \<Longrightarrow>
     entries h = entries g \<and> WithGroup_size g' = 0 \<and>
     WithGroup_dtor T g' th = (Returned (), g', th)"
  by (auto simp: WithGroup_move_ctor_def WithGroup_size_def WithGroup_dtor_def
      WithGroup_dtor_over_def while_entries_Nil)

subsection \<open>The handler of the loop\<close>

text \<open>
  What the loop and its handler would do with a \<^verbatim>\<open>reset\<close> that let the exception of
  \<^verbatim>\<open>~With()\<close> pass to its caller: every entry is left, newest first; while an
  exception is in flight the destructor returns; otherwise it raises the first error
  that an exit hook raised.
\<close>

lemma while_entries_passing:
  "\<exists>th'. while_entries (With_dtor T) u f es th =
      (Returned (if f = None \<and> \<not> u then first_raised T (rev es) (world th) else f), [], th') \<and>
      history th' = history th @ teardown 0 es"
proof (induction es arbitrary: f th rule: rev_induct)
  case Nil
  then show ?case by (simp add: while_entries_Nil)
next
  case (snoc x xs)
  let ?th1 = "th\<lparr>history := history th @ [PopBack (length xs)]\<rparr>"
  obtain o1 w1 where X: "ExitWithScope T (ctx x) (world th) = (o1, w1)" by fastforce
  let ?th2 = "th\<lparr>world := w1, history := history th @ [PopBack (length xs), ExitHook (ctx x)]\<rparr>"
  show ?case
  proof (cases o1)
    case None
    with X have R: "With_dtor T x ?th1 = (Returned (), ?th2)" by (simp add: With_dtor_def)
    from snoc.IH [of f ?th2] R None X show ?thesis
      by (auto simp: while_entries_snoc teardown_snoc)
  next
    case (Some e)
    with X have R: "With_dtor T x ?th1 = (Raised e, ?th2)" by (simp add: With_dtor_def)
    from snoc.IH [of "if \<not> u \<and> f = None then Some e else f" ?th2] R Some X show ?thesis
      by (auto simp: while_entries_snoc teardown_snoc)
  qed
qed

lemma WithGroup_dtor_over_passing:
  "\<exists>th'. WithGroup_dtor_over (With_dtor T) g th =
      ((if 0 < uncaught_exceptions th then Returned ()
        else case first_raised T (rev (entries g)) (world th) of
               None \<Rightarrow> Returned () | Some e \<Rightarrow> Raised e),
       g\<lparr>entries := []\<rparr>, th') \<and>
      history th' = history th @ teardown 0 (entries g)"
proof -
  from while_entries_passing [of T "0 < uncaught_exceptions th" None "entries g" th]
  obtain th' where
    "while_entries (With_dtor T) (0 < uncaught_exceptions th) None (entries g) th =
       (Returned (if \<not> 0 < uncaught_exceptions th
                  then first_raised T (rev (entries g)) (world th) else None), [], th')"
    and "history th' = history th @ teardown 0 (entries g)"
    by auto
  then show ?thesis
    by (auto simp: WithGroup_dtor_over_def split: option.splits)
qed

lemmas dtor_eval =
  WithGroup_dtor_def WithGroup_dtor_over_def while_entries.simps unique_ptr_reset_def
  With_dtor_def demo_def idle_def

text \<open>
  C6.  When the construction of the context or its enter hook raises an error,
  \<open>Emplace\<close> raises that error to its caller, the group is the group it was (same
  entries, same size), and no exit hook has been called.
\<close>

theorem Emplace_failure_leaves_group:
  assumes "construct T args (world th) = (Inl e, w1) \<or>
           (\<exists>c. construct T args (world th) = (Inr c, w1) \<and> EnterWithScope T c w1 = (Inl e, w2))"
  shows "\<exists>th'. Emplace T args g th = (Raised e, g, th') \<and>
               WithGroup_size (fst (snd (Emplace T args g th))) = WithGroup_size g \<and>
               exits (history th') = exits (history th)"
  using assms by (auto simp: Emplace_def With_ctor_def exits_append)

theorem Emplace_failure_leaves_group_witness:
  "\<exists>th'. Emplace demo 100 \<lparr>entries = [With 2]\<rparr> (idle\<lparr>world := [2]\<rparr>) =
            (Raised ''enter failed'', \<lparr>entries = [With 2]\<rparr>, th') \<and>
          WithGroup_size (fst (snd (Emplace demo 100 \<lparr>entries = [With 2]\<rparr> (idle\<lparr>world := [2]\<rparr>)))) = 1 \<and>
          exits (history th') = []"
  using Emplace_failure_leaves_group
    [of demo 100 "idle\<lparr>world := [2]\<rparr>" "''enter failed''" "[2]" "[2]" "\<lparr>entries = [With 2]\<rparr>"]
  by (simp add: demo_def idle_def WithGroup_size_def)

text \<open>
  C7.  A group holds the entries 4, 6 and 3, added in that order, and no exception is in
  flight.  The exit hook of 3 raises.  The destructor does not complete, neither by
  returning nor by raising: the process is terminated inside \<^verbatim>\<open>entry.reset()\<close>
  while the group still holds the entries 4 and 6, and \<open>size()\<close> is 2.
\<close>

theorem failed_hook_leaves_entries:
  "WithGroup_dtor demo \<lparr>entries = [With 4, With 6, With 3]\<rparr> (idle\<lparr>world := [3, 6, 4]\<rparr>) =
     (Fatal StdTerminate, \<lparr>entries = [With 4, With 6]\<rparr>,
      \<lparr>world = [6, 4], uncaught_exceptions = 0, history = [PopBack 2, ExitHook 3]\<rparr>) \<and>
   WithGroup_size (fst (snd (WithGroup_dtor demo \<lparr>entries = [With 4, With 6, With 3]\<rparr>
       (idle\<lparr>world := [3, 6, 4]\<rparr>)))) = 2"
  by (simp add: dtor_eval WithGroup_size_def)

text \<open>
  C1.  A group holds the entries 2, 4 and 1, added in that order, and no exception is in
  flight.  The exit hook of 1, the first to run, raises.  The destructor does not
  raise that error to its caller: the process is terminated inside
  \<^verbatim>\<open>entry.reset()\<close>, and the exit hooks of 4 and 2 are never called.  (The handler
  is written for the first error to win, see \<open>WithGroup_dtor_over_passing\<close>; it is
  the call of \<^verbatim>\<open>reset\<close> that keeps the error from it.)
\<close>

theorem first_exit_error_terminates:
  "WithGroup_dtor demo \<lparr>entries = [With 2, With 4, With 1]\<rparr> (idle\<lparr>world := [1, 4, 2]\<rparr>) =
     (Fatal StdTerminate, \<lparr>entries = [With 2, With 4]\<rparr>,
      \<lparr>world = [4, 2], uncaught_exceptions = 0, history = [PopBack 2, ExitHook 1]\<rparr>)"
  by (simp add: dtor_eval)

text \<open>
  C2.  A group holds the entries 2 and 3 and is destroyed while one exception is in
  flight.  The exit hook of 3 raises.  The error is not swallowed: the process is
  terminated inside \<^verbatim>\<open>entry.reset()\<close>, and the exit hook of 2 is never called.
\<close>

theorem exit_error_while_unwinding_terminates:
  "WithGroup_dtor demo \<lparr>entries = [With 2, With 3]\<rparr>
       (idle\<lparr>world := [3, 2], uncaught_exceptions := 1\<rparr>) =
     (Fatal StdTerminate, \<lparr>entries = [With 2]\<rparr>,
      \<lparr>world = [2], uncaught_exceptions = 1, history = [PopBack 1, ExitHook 3]\<rparr>)"
  by (simp add: dtor_eval)

text \<open>
  C3.  Two calls of \<open>Emplace\<close> succeed, for 2 and then for 5.  Destroying the group
  removes the entry of 5 and calls its exit hook, which raises; the process is
  terminated there, and the exit hook of 2 is not called: of the two entries only
  one is left.
\<close>

theorem emplaced_entries_not_all_exited:
  "(case Emplace demo 2 WithGroup_ctor idle of
      (r1, g1, th1) \<Rightarrow>
        (case Emplace demo 5 g1 th1 of
           (r2, g2, th2) \<Rightarrow> (r1, r2, g2, WithGroup_dtor demo g2 th2))) =
     (Returned (), Returned (), \<lparr>entries = [With 2, With 5]\<rparr>,
      Fatal StdTerminate, \<lparr>entries = [With 2]\<rparr>,
      \<lparr>world = [2], uncaught_exceptions = 0,
       history = [EnterHook 2, EnterHook 5, PopBack 1, ExitHook 5]\<rparr>)"
  by (simp add: dtor_eval Emplace_def With_ctor_def WithGroup_ctor_def)

text \<open>
  C10.  A group with the entries 2 and 7 is moved into a new group.  The new group
  holds 2 and 7, the old one is empty, and destroying the old one calls no hook.
  Destroying the new group calls the exit hook of 7, which raises; the process is
  terminated there, and the exit hook of 2 is not called at all.
\<close>

theorem moved_group_not_all_exited:
  "(case WithGroup_move_ctor \<lparr>entries = [With 2, With 7]\<rparr> of
      (h, g) \<Rightarrow>
        (case WithGroup_dtor demo g (idle\<lparr>world := [7, 2]\<rparr>) of
           (rg, g', th1) \<Rightarrow> (h, g, rg, history th1, WithGroup_dtor demo h th1))) =
     (\<lparr>entries = [With 2, With 7]\<rparr>, \<lparr>entries = []\<rparr>, Returned (), [],
      Fatal StdTerminate, \<lparr>entries = [With 2]\<rparr>,
      \<lparr>world = [2], uncaught_exceptions = 0, history = [PopBack 1, ExitHook 7]\<rparr>)"
  by (simp add: dtor_eval WithGroup_move_ctor_def)

section \<open>Properties of ScopeStack\<close>

lemma map_fst_replace_last:
  "d \<noteq> [] \<Longrightarrow> map fst (butlast d @ [(fst (last d), v)]) = map fst d"
  by (cases d rule: rev_cases) simp_all

lemma Current_Nil: "stack s = [] \<Longrightarrow> Current s = Fatal InvariantViolation"
  by (simp add: Current_def TVM_FFI_ICHECK_def deque_empty_def)

lemma Current_Cons: "stack s \<noteq> [] \<Longrightarrow> Current s = Returned (last (stack s))"
  by (simp add: Current_def TVM_FFI_ICHECK_def deque_empty_def deque_back_def)

lemma Current_const_Nil: "stack s = [] \<Longrightarrow> Current_const s = Fatal InvariantViolation"
  by (simp add: Current_const_def TVM_FFI_ICHECK_def deque_empty_def)

lemma Current_const_Cons: "stack s \<noteq> [] \<Longrightarrow> Current_const s = Returned (last (stack s))"
  by (simp add: Current_const_def TVM_FFI_ICHECK_def deque_empty_def deque_back_def)

text \<open>
  What \<open>WithNewScope\<close> does after a body that returned or raised and left the new cell
  on top: the cell is popped, and the outcome of the body reaches the caller when the
  destructor of the element returns.
\<close>

lemma WithNewScope_after_body:
  assumes "body (s\<lparr>stack := stack s @ [(alloc (map fst (stack s)), dflt)]\<rparr>) = (r, s2)"
    and "\<forall>k. r \<noteq> Fatal k" and "stack s2 \<noteq> []"
  shows "WithNewScope alloc dflt dtor body s =
     (case dtor (snd (last (stack s2))) of
        Returned u \<Rightarrow> r
      | Raised e \<Rightarrow> Fatal UndefinedBehaviour
      | Fatal k \<Rightarrow> Fatal k,
      s2\<lparr>stack := butlast (stack s2)\<rparr>)"
  using assms
  by (cases r; cases "dtor (snd (last (stack s2)))")
    (simp_all add: WithNewScope_def deque_emplace_back_def deque_pop_back_def)

lemma WithNewScope_fatal_body:
  assumes "body (s\<lparr>stack := stack s @ [(alloc (map fst (stack s)), dflt)]\<rparr>) = (Fatal k, s2)"
  shows "WithNewScope alloc dflt dtor body s = (Fatal k, s2)"
  using assms by (simp add: WithNewScope_def deque_emplace_back_def)

text \<open>
  A program that completes leaves the cells of the stack where and as many as they
  were.  A program that ends the process has left the cells it found in place; it
  can only do so on a stack that was empty when it started, or through the
  destructor of an element.
\<close>

lemma exec_addresses:
  "exec alloc dflt dtor p s = (r, s') \<Longrightarrow>
     (case r of
        Fatal k \<Rightarrow> prefix (map fst (stack s)) (map fst (stack s')) \<and>
                   (stack s = [] \<or> (\<exists>v. dtor v \<noteq> Returned ()))
      | _ \<Rightarrow> map fst (stack s') = map fst (stack s))"
proof (induction p arbitrary: s r s')
  case (Return v)
  then show ?case by auto
next
  case (Throw e)
  then show ?case by auto
next
  case (CallSize k)
  from CallSize.prems show ?case by (auto intro: CallSize.IH [OF rangeI])
next
  case (CallEmpty k)
  from CallEmpty.prems show ?case by (auto intro: CallEmpty.IH [OF rangeI])
next
  case (CallCurrent k)
  show ?case
  proof (cases "stack s = []")
    case True
    with CallCurrent.prems show ?thesis by (auto simp: Current_const_Nil)
  next
    case False
    with CallCurrent.prems have "exec alloc dflt dtor (k (last (stack s))) s = (r, s')"
      by (simp add: Current_const_Cons)
    then show ?thesis by (rule CallCurrent.IH [OF rangeI])
  qed
next
  case (AssignCurrent f p)
  show ?case
  proof (cases "stack s = []")
    case True
    with AssignCurrent.prems show ?thesis by (auto simp: Current_Nil)
  next
    case False
    let ?s1 = "s\<lparr>stack := butlast (stack s) @ [(fst (last (stack s)), f (snd (last (stack s))))]\<rparr>"
    from False AssignCurrent.prems have E: "exec alloc dflt dtor p ?s1 = (r, s')"
      by (simp add: Current_Cons)
    have A: "map fst (stack ?s1) = map fst (stack s)"
      using map_fst_replace_last [OF False] by simp
    from AssignCurrent.IH [OF E] A False show ?thesis
      by (cases r) auto
  qed
next
  case (CallWithNewScope b k)
  let ?a = "alloc (map fst (stack s))"
  let ?s1 = "s\<lparr>stack := stack s @ [(?a, dflt)]\<rparr>"
  obtain rb s2 where B: "exec alloc dflt dtor b ?s1 = (rb, s2)" by fastforce
  note IHb = CallWithNewScope.IH(1) [OF B]
  show ?case
  proof (cases "\<exists>kb. rb = Fatal kb")
    case True
    then obtain kb where kb: "rb = Fatal kb" by blast
    with B have "WithNewScope alloc dflt dtor (exec alloc dflt dtor b) s = (Fatal kb, s2)"
      by (simp add: WithNewScope_fatal_body)
    with CallWithNewScope.prems have rs: "r = Fatal kb" "s' = s2" by simp_all
    from IHb kb have "prefix (map fst (stack s) @ [?a]) (map fst (stack s2))"
      and "\<exists>v. dtor v \<noteq> Returned ()" by simp_all
    with rs show ?thesis by (auto dest: append_prefixD)
  next
    case False
    then have nf: "\<forall>kb. rb \<noteq> Fatal kb" by blast
    with IHb have A2: "map fst (stack s2) = map fst (stack s) @ [?a]"
      by (cases rb) simp_all
    then have ne2: "stack s2 \<noteq> []" by auto
    let ?s3 = "s2\<lparr>stack := butlast (stack s2)\<rparr>"
    have "map fst (butlast (stack s2)) = butlast (map fst (stack s2))"
      by (rule map_butlast)
    with A2 have A3: "map fst (stack ?s3) = map fst (stack s)" by simp
    note W = WithNewScope_after_body [where body = "exec alloc dflt dtor b" and s = s and alloc = alloc
        and dflt = dflt and dtor = dtor, OF B nf ne2]
    show ?thesis
    proof (cases "dtor (snd (last (stack s2)))")
      case (Returned u)
      with W have W': "WithNewScope alloc dflt dtor (exec alloc dflt dtor b) s = (rb, ?s3)"
        by simp
      show ?thesis
      proof (cases rb)
        case (Returned v)
        with W' CallWithNewScope.prems
        have "exec alloc dflt dtor (k (Inr v)) ?s3 = (r, s')" by simp
        from CallWithNewScope.IH(2) [OF rangeI this] A3 show ?thesis
          by (cases r; cases "stack s = []"; auto)
      next
        case (Raised e)
        with W' CallWithNewScope.prems
        have "exec alloc dflt dtor (k (Inl e)) ?s3 = (r, s')" by simp
        from CallWithNewScope.IH(2) [OF rangeI this] A3 show ?thesis
          by (cases r; cases "stack s = []"; auto)
      next
        case (Fatal kb)
        with nf show ?thesis by blast
      qed
    next
      case (Raised e)
      with W CallWithNewScope.prems have "r = Fatal UndefinedBehaviour" "s' = ?s3" by simp_all
      moreover from Raised have "\<exists>v. dtor v \<noteq> Returned ()" by (metis outcome.distinct(1))
      ultimately show ?thesis using A3 by simp
    next
      case (Fatal kd)
      with W CallWithNewScope.prems have "r = Fatal kd" "s' = ?s3" by simp_all
      moreover from Fatal have "\<exists>v. dtor v \<noteq> Returned ()" by (metis outcome.distinct(3))
      ultimately show ?thesis using A3 by simp
    qed
  qed
qed

lemma exec_completes:
  assumes "exec alloc dflt dtor p s = (r, s')" and "\<forall>k. r \<noteq> Fatal k"
  shows "map fst (stack s') = map fst (stack s)"
  using exec_addresses [OF assms(1)] assms(2) by (cases r) simp_all

lemma exec_prefix:
  assumes "exec alloc dflt dtor p s = (r, s')"
  shows "prefix (map fst (stack s)) (map fst (stack s'))"
  using exec_addresses [OF assms] by (cases r) simp_all

lemma exec_fatal:
  assumes "exec alloc dflt dtor p s = (Fatal k, s')" and "stack s \<noteq> []"
  shows "\<exists>v. dtor v \<noteq> Returned ()"
  using exec_addresses [OF assms(1)] assms(2) by simp

lemma visited_prefix:
  "x \<in> set (visited alloc dflt dtor p s) \<Longrightarrow> prefix (map fst (stack s)) (map fst (stack x))"
proof (induction p arbitrary: s x)
  case (Return v)
  then show ?case by auto
next
  case (Throw e)
  then show ?case by auto
next
  case (CallSize k)
  from CallSize.prems show ?case by (auto intro: CallSize.IH [OF rangeI])
next
  case (CallEmpty k)
  from CallEmpty.prems show ?case by (auto intro: CallEmpty.IH [OF rangeI])
next
  case (CallCurrent k)
  show ?case
  proof (cases "stack s = []")
    case True
    with CallCurrent.prems show ?thesis by (auto simp: Current_const_Nil)
  next
    case False
    with CallCurrent.prems
    have "x = s \<or> x \<in> set (visited alloc dflt dtor (k (last (stack s))) s)"
      by (simp add: Current_const_Cons)
    then show ?thesis by (auto intro: CallCurrent.IH [OF rangeI])
  qed
next
  case (AssignCurrent f p)
  show ?case
  proof (cases "stack s = []")
    case True
    with AssignCurrent.prems show ?thesis by (auto simp: Current_Nil)
  next
    case False
    let ?s1 = "s\<lparr>stack := butlast (stack s) @ [(fst (last (stack s)), f (snd (last (stack s))))]\<rparr>"
    have A: "map fst (stack ?s1) = map fst (stack s)"
      using map_fst_replace_last [OF False] by simp
    from False AssignCurrent.prems have "x = s \<or> x \<in> set (visited alloc dflt dtor p ?s1)"
      by (simp add: Current_Cons)
    then show ?thesis
    proof
      assume "x = s" then show ?thesis by simp
    next
      assume "x \<in> set (visited alloc dflt dtor p ?s1)"
      from AssignCurrent.IH [OF this] A show ?thesis by simp
    qed
  qed
next
  case (CallWithNewScope b k)
  let ?a = "alloc (map fst (stack s))"
  let ?s1 = "s\<lparr>stack := stack s @ [(?a, dflt)]\<rparr>"
  obtain rb s2 where B: "exec alloc dflt dtor b ?s1 = (rb, s2)" by fastforce
  obtain rw sw where W: "WithNewScope alloc dflt dtor (exec alloc dflt dtor b) s = (rw, sw)"
    by fastforce
  have cont: "prefix (map fst (stack s)) (map fst (stack x))"
    if nfw: "\<forall>kw. rw \<noteq> Fatal kw" and x: "x \<in> set (visited alloc dflt dtor (k c) sw)" for c
  proof -
    have nf: "\<forall>kb. rb \<noteq> Fatal kb"
    proof (rule ccontr)
      assume "\<not> (\<forall>kb. rb \<noteq> Fatal kb)"
      then obtain kb where "rb = Fatal kb" by blast
      with B W have "rw = Fatal kb" by (simp add: WithNewScope_fatal_body)
      with nfw show False by blast
    qed
    from exec_completes [OF B nf] have A2: "map fst (stack s2) = map fst (stack s) @ [?a]"
      by simp
    then have ne2: "stack s2 \<noteq> []" by auto
    from WithNewScope_after_body [where body = "exec alloc dflt dtor b" and s = s and alloc = alloc
        and dflt = dflt and dtor = dtor, OF B nf ne2] W
    have "sw = s2\<lparr>stack := butlast (stack s2)\<rparr>" by simp
    moreover have "map fst (butlast (stack s2)) = butlast (map fst (stack s2))"
      by (rule map_butlast)
    ultimately have "map fst (stack sw) = map fst (stack s)" using A2 by simp
    with CallWithNewScope.IH(2) [OF rangeI x] show ?thesis by simp
  qed
  from CallWithNewScope.prems W
  consider "x = s" | "x \<in> set (visited alloc dflt dtor b ?s1)"
    | v where "rw = Returned v" "x \<in> set (visited alloc dflt dtor (k (Inr v)) sw)"
    | e where "rw = Raised e" "x \<in> set (visited alloc dflt dtor (k (Inl e)) sw)"
    by (cases rw) (auto simp: deque_emplace_back_def)
  then show ?case
  proof cases
    case 1
    then show ?thesis by simp
  next
    case 2
    from CallWithNewScope.IH(1) [OF this]
    have "prefix (map fst (stack s) @ [?a]) (map fst (stack x))" by simp
    then show ?thesis by (rule append_prefixD)
  next
    case 3
    then show ?thesis by (intro cont [of "Inr v"]) simp_all
  next
    case 4
    then show ?thesis by (intro cont [of "Inl e"]) simp_all
  qed
qed

text \<open>
  With the element type the header documents, a scope whose group holds a context
  with a raising exit hook ends the process when the scope is popped.
\<close>

lemma scope_of_groups_terminates:
  "WithNewScope bump WithGroup_ctor group_dtor (exec bump WithGroup_ctor group_dtor emplace3)
       (ScopeStack_ctor bump WithGroup_ctor) =
     (Fatal StdTerminate, \<lparr>stack = [(1, \<lparr>entries = []\<rparr>)]\<rparr>)"
  by (simp add: WithNewScope_def emplace3_def group_dtor_def dtor_eval ScopeStack_ctor_def
      WithGroup_ctor_def deque_emplace_back_def deque_pop_back_def bump_def Current_def
      TVM_FFI_ICHECK_def deque_empty_def deque_back_def)

text \<open>
  C4, as amended.  \<open>WithNewScope\<close> runs the body on the stack with one new element
  appended, holding the default value.  A body that uses the stack through the
  declared members and returns or raises leaves the cells it found with the new cell
  on top of them.  \<open>WithNewScope\<close> then pops that one cell; when the destructor of the
  popped element returns, the call completes with the outcome of the body and the
  size of the stack is the size before the call, and the call completes in no other
  case.
\<close>

theorem WithNewScope_pushes_one_pops_one:
  assumes "exec alloc dflt dtor body
             (s\<lparr>stack := stack s @ [(alloc (map fst (stack s)), dflt)]\<rparr>) = (r, s2)"
    and "\<forall>k. r \<noteq> Fatal k"
  shows "map fst (stack s2) = map fst (stack s) @ [alloc (map fst (stack s))] \<and>
         (dtor (snd (last (stack s2))) = Returned () \<longrightarrow>
            WithNewScope alloc dflt dtor (exec alloc dflt dtor body) s =
              (r, s2\<lparr>stack := butlast (stack s2)\<rparr>) \<and>
            ScopeStack_size (snd (WithNewScope alloc dflt dtor (exec alloc dflt dtor body) s)) =
              ScopeStack_size s) \<and>
         ((\<forall>k. fst (WithNewScope alloc dflt dtor (exec alloc dflt dtor body) s) \<noteq> Fatal k) \<longrightarrow>
            dtor (snd (last (stack s2))) = Returned ())"
proof -
  from exec_completes [OF assms]
  have A: "map fst (stack s2) = map fst (stack s) @ [alloc (map fst (stack s))]" by simp
  then have ne: "stack s2 \<noteq> []" by auto
  from A have "length (map fst (stack s2)) = length (map fst (stack s) @ [alloc (map fst (stack s))])"
    by (simp only:)
  then have L: "length (stack s2) = Suc (length (stack s))" by simp
  note W = WithNewScope_after_body [where body = "exec alloc dflt dtor body" and s = s
      and alloc = alloc and dflt = dflt and dtor = dtor, OF assms ne]
  show ?thesis
  proof (cases "dtor (snd (last (stack s2)))")
    case (Returned u)
    with W A L show ?thesis by (simp add: ScopeStack_size_def deque_size_def)
  next
    case (Raised e)
    with W A show ?thesis by simp
  next
    case (Fatal k)
    with W A show ?thesis by simp
  qed
qed

theorem WithNewScope_pushes_one_pops_one_witness:
  "WithNewScope bump 0 trivial
       (exec bump 0 trivial (AssignCurrent (\<lambda>x. x + 5) (Throw ''boom'') :: (nat, nat, string) client))
       (ScopeStack_ctor bump 0) =
     (Raised ''boom'', \<lparr>stack = [(1, 0)]\<rparr>) \<and>
   ScopeStack_size (snd (WithNewScope bump 0 trivial
       (exec bump 0 trivial (AssignCurrent (\<lambda>x. x + 5) (Throw ''boom'') :: (nat, nat, string) client))
       (ScopeStack_ctor bump 0))) = ScopeStack_size (ScopeStack_ctor bump (0::nat))"
proof -
  have E: "exec bump 0 trivial (AssignCurrent (\<lambda>x. x + 5) (Throw ''boom'') :: (nat, nat, string) client)
             ((ScopeStack_ctor bump 0)\<lparr>stack := stack (ScopeStack_ctor bump 0) @
                [(bump (map fst (stack (ScopeStack_ctor bump 0))), 0)]\<rparr>) =
           (Raised ''boom'', \<lparr>stack = [(1, 0), (2, 5)]\<rparr>)"
    by (simp add: ScopeStack_ctor_def deque_emplace_back_def bump_def Current_def
        TVM_FFI_ICHECK_def deque_empty_def deque_back_def)
  have N: "\<forall>k. (Raised ''boom'' :: (nat, string) outcome) \<noteq> Fatal k" by simp
  from WithNewScope_pushes_one_pops_one [OF E N] show ?thesis
    by (simp add: ScopeStack_ctor_def deque_emplace_back_def bump_def trivial_def)
qed

text \<open>
  C4, as stated, fails for a body that is not held to the declared members: the body
  \<^verbatim>\<open>[&]{ s = ScopeStack<T>(); }\<close> returns, the guard pops the one element of the
  stack assigned, and the size after the call is 0 where it was 1 before.
\<close>

theorem replaced_stack_changes_size:
  "WithNewScope bump 0 trivial replace_stack (ScopeStack_ctor bump 0) =
     (Returned (), \<lparr>stack = []\<rparr>) \<and>
   ScopeStack_size (ScopeStack_ctor bump (0::nat)) = 1 \<and>
   ScopeStack_size (snd (WithNewScope bump 0 trivial replace_stack (ScopeStack_ctor bump 0))) = 0"
  by (simp add: WithNewScope_def replace_stack_def ScopeStack_move_assign_def trivial_def
      ScopeStack_ctor_def ScopeStack_size_def deque_size_def deque_emplace_back_def
      deque_pop_back_def bump_def)

text \<open>
  C8.  \<open>Current()\<close>, in its mutable and in its read-only form, returns the reference to
  the last element of a stack that is not empty, and fails on an empty stack with the
  fatal invariant violation of the check, returning no value.
\<close>

theorem Current_innermost_or_fatal:
  "(Current s :: (addr \<times> 't, 'e) outcome) =
     (if ScopeStack_empty s then Fatal InvariantViolation else Returned (last (stack s))) \<and>
   (Current_const s :: (addr \<times> 't, 'e) outcome) =
     (if ScopeStack_empty s then Fatal InvariantViolation else Returned (last (stack s)))"
  by (simp add: Current_def Current_const_def TVM_FFI_ICHECK_def ScopeStack_empty_def
      deque_empty_def deque_back_def)

text \<open>
  C5.  Take the reference that \<open>Current()\<close> returns: the element lives at address \<open>a\<close>.
  Whatever program runs from there through the declared members, nested calls of
  \<open>WithNewScope\<close> included, and whatever the destructor of the element type does, in
  every stack the program passes through and in the stack it ends with the element
  is still in place at address \<open>a\<close>.  When the program completes, \<open>Current()\<close>
  returns the reference to address \<open>a\<close> again; and it does complete when the
  destructor of the element type always returns.
\<close>

theorem Current_reference_stable:
  assumes "(Current s :: (addr \<times> 't, 'e) outcome) = Returned (a, v)"
  shows "(\<forall>x \<in> set (visited alloc dflt dtor (p :: ('t, 'r, 'e) client) s).
            ScopeStack_size s \<le> ScopeStack_size x \<and>
            fst (stack x ! (ScopeStack_size s - 1)) = a) \<and>
         (\<forall>r s'. exec alloc dflt dtor p s = (r, s') \<longrightarrow>
            ScopeStack_size s \<le> ScopeStack_size s' \<and>
            fst (stack s' ! (ScopeStack_size s - 1)) = a \<and>
            ((\<forall>k. r \<noteq> Fatal k) \<longrightarrow>
               (\<exists>v'. (Current s' :: (addr \<times> 't, 'e) outcome) = Returned (a, v'))) \<and>
            ((\<forall>u. dtor u = Returned ()) \<longrightarrow> (\<forall>k. r \<noteq> Fatal k)))"
proof -
  from assms have ne: "stack s \<noteq> []"
    by (cases "stack s = []") (simp_all add: Current_Nil)
  with assms have la: "last (stack s) = (a, v)" by (simp add: Current_Cons)
  let ?n = "ScopeStack_size s"
  from ne have n: "?n - 1 < length (map fst (stack s))"
    by (simp add: ScopeStack_size_def deque_size_def)
  from ne la have a: "map fst (stack s) ! (?n - 1) = a"
    by (simp add: ScopeStack_size_def deque_size_def last_conv_nth)
  have in_place: "ScopeStack_size s \<le> ScopeStack_size x \<and> fst (stack x ! (?n - 1)) = a"
    if "prefix (map fst (stack s)) (map fst (stack x))" for x
  proof -
    from that obtain zs where
      zs: "map fst (stack x) = map fst (stack s) @ zs" by (auto simp: prefix_def)
    then have "length (map fst (stack x)) = length (map fst (stack s) @ zs)" by simp
    then have le: "ScopeStack_size s \<le> ScopeStack_size x"
      by (simp add: ScopeStack_size_def deque_size_def)
    from zs n have "map fst (stack x) ! (?n - 1) = map fst (stack s) ! (?n - 1)"
      by (simp add: nth_append)
    with a le n show ?thesis by (simp add: ScopeStack_size_def deque_size_def)
  qed
  have 1: "ScopeStack_size s \<le> ScopeStack_size x \<and> fst (stack x ! (?n - 1)) = a"
    if "x \<in> set (visited alloc dflt dtor p s)" for x
    using in_place [OF visited_prefix [OF that]] .
  have 2: "ScopeStack_size s \<le> ScopeStack_size s' \<and>
            fst (stack s' ! (ScopeStack_size s - 1)) = a \<and>
            ((\<forall>k. r \<noteq> Fatal k) \<longrightarrow>
               (\<exists>v'. (Current s' :: (addr \<times> 't, 'e) outcome) = Returned (a, v'))) \<and>
            ((\<forall>u. dtor u = Returned ()) \<longrightarrow> (\<forall>k. r \<noteq> Fatal k))"
    if E: "exec alloc dflt dtor p s = (r, s')" for r s'
  proof -
    note P = in_place [OF exec_prefix [OF E]]
    have C: "\<exists>v'. (Current s' :: (addr \<times> 't, 'e) outcome) = Returned (a, v')"
      if nf: "\<forall>k. r \<noteq> Fatal k"
    proof -
      from exec_completes [OF E nf] have m: "map fst (stack s') = map fst (stack s)" .
      with ne have ne': "stack s' \<noteq> []" by auto
      from m have "last (map fst (stack s')) = last (map fst (stack s))" by simp
      with ne ne' la have "fst (last (stack s')) = a" by (simp add: last_map)
      with ne' show ?thesis by (cases "last (stack s')") (simp add: Current_Cons)
    qed
    have F: "\<forall>k. r \<noteq> Fatal k" if tr: "\<forall>u. dtor u = Returned ()"
    proof (rule ccontr)
      assume "\<not> (\<forall>k. r \<noteq> Fatal k)"
      then obtain k where "r = Fatal k" by blast
      with E have "exec alloc dflt dtor p s = (Fatal k, s')" by simp
      from exec_fatal [OF this ne] tr show False by blast
    qed
    from P C F show ?thesis by blast
  qed
  from 1 2 show ?thesis by blast
qed

theorem Current_reference_stable_witness:
  "(Current (ScopeStack_ctor bump 0) :: (addr \<times> nat, string) outcome) = Returned (1, 0) \<and>
   list_all (\<lambda>x. ScopeStack_size (ScopeStack_ctor bump (0::nat)) \<le> ScopeStack_size x \<and>
                  fst (stack x ! (ScopeStack_size (ScopeStack_ctor bump (0::nat)) - 1)) = 1)
     (visited bump 0 trivial nested (ScopeStack_ctor bump 0)) \<and>
   (\<exists>v'. (Current (snd (exec bump 0 trivial nested (ScopeStack_ctor bump 0))) :: (addr \<times> nat, string) outcome) =
           Returned (1, v'))"
proof -
  have C: "(Current (ScopeStack_ctor bump 0) :: (addr \<times> nat, string) outcome) = Returned (1, 0)"
    by (simp add: Current_def TVM_FFI_ICHECK_def deque_empty_def ScopeStack_ctor_def
        deque_emplace_back_def deque_back_def bump_def)
  have T: "\<forall>u. trivial u = Returned ()" by (simp add: trivial_def)
  from Current_reference_stable [OF C, of bump 0 trivial nested] C T show ?thesis
    by (auto simp: list_all_iff prod_eq_iff)
qed

text \<open>
  C9, as amended.  The constructor leaves exactly one element.  A program over the
  declared members that starts on a stack with at least one element passes only
  through stacks that are not empty and still have the base element in its place, so
  \<open>empty()\<close> is false and \<open>Current()\<close> returns an element at each of its steps.  It
  ends with the base element in place; with the size it started with when it
  completes; and it ends the process only through the destructor of an element, never
  in the failure of the check.
\<close>

theorem declared_members_keep_base:
  "ScopeStack_size (ScopeStack_ctor alloc dflt) = 1 \<and>
   (1 \<le> ScopeStack_size s \<longrightarrow>
      (\<forall>x \<in> set (visited alloc dflt dtor (p :: ('t, 'r, 'e) client) s).
          1 \<le> ScopeStack_size x \<and> \<not> ScopeStack_empty x \<and>
          (Current x :: (addr \<times> 't, 'e) outcome) = Returned (last (stack x)) \<and>
          fst (hd (stack x)) = fst (hd (stack s))) \<and>
      (\<forall>r s'. exec alloc dflt dtor p s = (r, s') \<longrightarrow>
          1 \<le> ScopeStack_size s' \<and> fst (hd (stack s')) = fst (hd (stack s)) \<and>
          ((\<forall>k. r \<noteq> Fatal k) \<longrightarrow> ScopeStack_size s' = ScopeStack_size s) \<and>
          (\<forall>k. r = Fatal k \<longrightarrow> (\<exists>v. dtor v \<noteq> Returned ()))))"
proof -
  have 0: "ScopeStack_size (ScopeStack_ctor alloc dflt) = 1"
    by (simp add: ScopeStack_size_def deque_size_def ScopeStack_ctor_def deque_emplace_back_def)
  {
    assume s: "1 \<le> ScopeStack_size s"
    then have ne: "stack s \<noteq> []" by (auto simp: ScopeStack_size_def deque_size_def)
    have base: "1 \<le> ScopeStack_size x \<and> \<not> ScopeStack_empty x \<and>
          (Current x :: (addr \<times> 't, 'e) outcome) = Returned (last (stack x)) \<and>
          fst (hd (stack x)) = fst (hd (stack s))"
      if "prefix (map fst (stack s)) (map fst (stack x))" for x
    proof -
      from that obtain zs where
        zs: "map fst (stack x) = map fst (stack s) @ zs" by (auto simp: prefix_def)
      with ne have nx: "stack x \<noteq> []" by auto
      from zs have "hd (map fst (stack x)) = hd (map fst (stack s) @ zs)" by simp
      with ne nx have "fst (hd (stack x)) = fst (hd (stack s))" by (simp add: hd_map)
      with nx show ?thesis
        by (cases "stack x")
          (simp_all add: ScopeStack_size_def deque_size_def ScopeStack_empty_def
            deque_empty_def Current_Cons)
    qed
    have 1: "1 \<le> ScopeStack_size x \<and> \<not> ScopeStack_empty x \<and>
          (Current x :: (addr \<times> 't, 'e) outcome) = Returned (last (stack x)) \<and>
          fst (hd (stack x)) = fst (hd (stack s))"
      if "x \<in> set (visited alloc dflt dtor p s)" for x
      using base [OF visited_prefix [OF that]] .
    have 2: "1 \<le> ScopeStack_size s' \<and> fst (hd (stack s')) = fst (hd (stack s)) \<and>
          ((\<forall>k. r \<noteq> Fatal k) \<longrightarrow> ScopeStack_size s' = ScopeStack_size s) \<and>
          (\<forall>k. r = Fatal k \<longrightarrow> (\<exists>v. dtor v \<noteq> Returned ()))"
      if E: "exec alloc dflt dtor p s = (r, s')" for r s'
    proof -
      note B = base [OF exec_prefix [OF E]]
      have S: "ScopeStack_size s' = ScopeStack_size s" if nf: "\<forall>k. r \<noteq> Fatal k"
      proof -
        from exec_completes [OF E nf]
        have "length (map fst (stack s')) = length (map fst (stack s))" by simp
        then show ?thesis by (simp add: ScopeStack_size_def deque_size_def)
      qed
      have F: "\<exists>v. dtor v \<noteq> Returned ()" if "r = Fatal k" for k
        using exec_fatal [of alloc dflt dtor p s k s'] E that ne by simp
      from B S F show ?thesis by blast
    qed
    from 1 2 have "(\<forall>x \<in> set (visited alloc dflt dtor p s).
          1 \<le> ScopeStack_size x \<and> \<not> ScopeStack_empty x \<and>
          (Current x :: (addr \<times> 't, 'e) outcome) = Returned (last (stack x)) \<and>
          fst (hd (stack x)) = fst (hd (stack s))) \<and>
      (\<forall>r s'. exec alloc dflt dtor p s = (r, s') \<longrightarrow>
          1 \<le> ScopeStack_size s' \<and> fst (hd (stack s')) = fst (hd (stack s)) \<and>
          ((\<forall>k. r \<noteq> Fatal k) \<longrightarrow> ScopeStack_size s' = ScopeStack_size s) \<and>
          (\<forall>k. r = Fatal k \<longrightarrow> (\<exists>v. dtor v \<noteq> Returned ())))" by blast
  }
  with 0 show ?thesis by blast
qed

theorem declared_members_keep_base_witness:
  "ScopeStack_size (ScopeStack_ctor bump (0::nat)) = 1 \<and>
   list_all (\<lambda>x. 1 \<le> ScopeStack_size x \<and> \<not> ScopeStack_empty x \<and>
                  (Current x :: (addr \<times> nat, string) outcome) = Returned (last (stack x)) \<and>
                  fst (hd (stack x)) = 1)
     (visited bump 0 trivial nested (ScopeStack_ctor bump 0)) \<and>
   ScopeStack_size (snd (exec bump 0 trivial nested (ScopeStack_ctor bump 0))) = 1 \<and>
   exec bump 0 trivial nested (ScopeStack_ctor bump 0) = (Returned 1, \<lparr>stack = [(1, 1)]\<rparr>)"
proof -
  have S: "ScopeStack_size (ScopeStack_ctor bump (0::nat)) = 1"
    and H: "fst (hd (stack (ScopeStack_ctor bump (0::nat)))) = 1"
    by (simp_all add: ScopeStack_size_def deque_size_def ScopeStack_ctor_def
        deque_emplace_back_def bump_def)
  have E: "exec bump 0 trivial nested (ScopeStack_ctor bump 0) = (Returned 1, \<lparr>stack = [(1, 1)]\<rparr>)"
    by (simp add: nested_def WithNewScope_def trivial_def ScopeStack_ctor_def ScopeStack_size_def
        deque_size_def deque_emplace_back_def deque_pop_back_def bump_def Current_def
        Current_const_def TVM_FFI_ICHECK_def deque_empty_def deque_back_def)
  from declared_members_keep_base [of bump "0::nat" "ScopeStack_ctor bump 0" trivial nested] S H E
  show ?thesis
    by (simp add: list_all_iff ScopeStack_size_def deque_size_def)
qed

text \<open>
  C9, as stated, fails for the public operations the compiler generates: after
  \<^verbatim>\<open>ScopeStack<T> b(std::move(a))\<close> the new stack owns the base element, and the stack
  moved from has size 0, \<open>empty()\<close> is true and \<open>Current()\<close> fails the check.
\<close>

theorem moved_from_stack_is_empty:
  "(case ScopeStack_move_ctor (ScopeStack_ctor bump (0::nat)) of
      (new, old) \<Rightarrow>
        (stack new, ScopeStack_size old, ScopeStack_empty old,
         Current old :: (addr \<times> nat, string) outcome)) =
     ([(1, 0)], 0, True, Fatal InvariantViolation)"
  by (simp add: ScopeStack_move_ctor_def ScopeStack_ctor_def ScopeStack_size_def
      ScopeStack_empty_def deque_size_def deque_empty_def deque_emplace_back_def bump_def
      Current_def TVM_FFI_ICHECK_def)

end
